theory Spec2Isabelle
  imports Complex_Main "HOL-Library.Sublist" "HOL-Library.Word"
begin

section \<open>JavaScript values used by the application\<close>

text \<open>
  A JavaScript string is falsy exactly when it is empty, and a \<open>string | null\<close> is
  falsy when it is \<open>null\<close> or empty. The guards of the application test strings this
  way (\<open>!state.scenario\<close>, \<open>characterName || ...\<close>).
\<close>

definition truthy :: "string \<Rightarrow> bool" where
  "truthy s = (s \<noteq> [])"

definition truthy_opt :: "string option \<Rightarrow> bool" where
  "truthy_opt u = (case u of None \<Rightarrow> False | Some s \<Rightarrow> truthy s)"

section \<open>The setup screen (App.tsx)\<close>

text \<open>
  The application state and the properties of the live-session hook both have the
  fields \<open>apiKey\<close>, \<open>characterName\<close>, \<open>scenario\<close> and \<open>personality\<close>, and the
  application hands its four to the hook as they are (\<open>apiKey: state.apiKey\<close>, ...).
  They are declared once, in a record both extend, so that each keeps its name.
\<close>

record Persona =
  apiKey :: string
  characterName :: string
  scenario :: string
  personality :: string

datatype step = Setup | Generating | Call

record AppState = Persona +
  step :: step
  vrmUrl :: "string option"
  backgroundUrl :: "string option"

datatype bg_mode = Upload | Generate

text \<open>
  The only thing \<open>handleStart\<close> does besides updating the state is the call of the
  image model inside \<open>generateBackground\<close>. The model returns the requests issued next
  to the new state, so that "no generation is initiated" is the empty list.
\<close>

datatype request = GenerateContent string

definition background_prompt :: "string \<Rightarrow> string" where
  "background_prompt sc =
     ''High quality anime style background art, vivid colors, highly detailed, 4k. Scenario: ''
     @ sc @ ''. No people, only scenery, cinematic lighting.''"

text \<open>\<open>generateBackground\<close> up to its \<open>await\<close>: the guard, the step change, the request.\<close>

definition generateBackground :: "AppState \<Rightarrow> AppState \<times> request list" where
  "generateBackground st =
     (if \<not> truthy (scenario st) \<or> \<not> truthy (apiKey st) then (st, [])
      else (st\<lparr>step := Generating\<rparr>, [GenerateContent (background_prompt (scenario st))]))"

text \<open>What the image model answers, and the continuation of \<open>generateBackground\<close> after it.\<close>

datatype gen_outcome = Image string | NoImage | GenFailed

definition generateBackground_settled :: "gen_outcome \<Rightarrow> AppState \<Rightarrow> AppState" where
  "generateBackground_settled r st =
     (case r of
        Image d \<Rightarrow> st\<lparr>backgroundUrl := Some (''data:image/jpeg;base64,'' @ d), step := Call\<rparr>
      | NoImage \<Rightarrow> st\<lparr>step := Setup\<rparr>
      | GenFailed \<Rightarrow> st\<lparr>step := Setup\<rparr>)"

definition handleStart :: "bg_mode \<Rightarrow> AppState \<Rightarrow> AppState \<times> request list" where
  "handleStart bgMode st =
     (if \<not> truthy_opt (vrmUrl st) \<or> \<not> truthy (scenario st) \<or> \<not> truthy (apiKey st)
      then (st, [])
      else if bgMode = Generate then generateBackground st
      else (st\<lparr>step := Call\<rparr>, []))"

section \<open>The system instruction of the live session\<close>

text \<open>
  The template literal of \<open>config.systemInstruction\<close>. Every line of the template but
  the last ends in a line feed and the next one starts with twelve blanks; four lines
  have a blank before the line feed.
\<close>

definition nl :: string where
  "nl = CHR 0x0A # ''            ''"

definition dq :: string where
  "dq = [CHR 0x22]"

definition systemInstruction :: "'a Persona_scheme \<Rightarrow> string" where
  "systemInstruction p =
     ''You are '' @ (if truthy (characterName p) then characterName p else ''a 3D avatar'')
     @ ''. '' @ nl
     @ ''The current scenario is: '' @ dq @ scenario p @ dq @ ''. '' @ nl
     @ ''Your personality is: '' @ dq @ personality p @ dq @ ''.'' @ nl
     @ ''Act appropriately for this scenario and personality. '' @ nl
     @ ''If the user is silent initially, introduce yourself and the situation confidently using your name (''
     @ characterName p @ ''). '' @ nl
     @ ''Your voice should match the character'' @ [CHR 0x27] @ ''s personality.'' @ nl
     @ ''Keep responses concise and conversational.''"

section \<open>The lip-sync part of the avatar's frame callback (Avatar.tsx)\<close>

text \<open>
  The analyser node, as far as the frame callback reads it: the number of frequency
  bins and the byte spectrum \<open>getByteFrequencyData\<close> writes. The callback allocates
  \<open>dataArray\<close> with \<open>frequencyBinCount\<close> entries and has it filled, so the array is the
  spectrum on the indices below \<open>frequencyBinCount\<close>.
\<close>

record AnalyserNode =
  frequencyBinCount :: nat
  byteFrequencyData :: "nat \<Rightarrow> 8 word"

definition dataArray :: "AnalyserNode \<Rightarrow> 8 word list" where
  "dataArray a = map (byteFrequencyData a) [0..<frequencyBinCount a]"

text \<open>
  The loop \<open>for (i = binStart; i < binEnd; i++) sum += dataArray[i]\<close>, counting from the
  number of iterations left.
\<close>

fun sum_bins :: "8 word list \<Rightarrow> nat \<Rightarrow> nat \<Rightarrow> real \<Rightarrow> real" where
  "sum_bins d i 0 acc = acc"
| "sum_bins d i (Suc k) acc = sum_bins d (Suc i) k (acc + real (unat (d ! i)))"

definition binStart :: "AnalyserNode \<Rightarrow> nat" where
  "binStart a = nat \<lfloor>real (frequencyBinCount a) * 0.1\<rfloor>"

definition binEnd :: "AnalyserNode \<Rightarrow> nat" where
  "binEnd a = nat \<lfloor>real (frequencyBinCount a) * 0.5\<rfloor>"

definition average :: "AnalyserNode \<Rightarrow> real" where
  "average a =
     sum_bins (dataArray a) (binStart a) (binEnd a - binStart a) 0
       / (real (binEnd a) - real (binStart a))"

definition rawVolume :: "AnalyserNode \<Rightarrow> real" where
  "rawVolume a = min 1 (average a / 100)"

definition volume :: "AnalyserNode \<Rightarrow> real \<Rightarrow> real" where
  "volume a expressionFactor = rawVolume a * expressionFactor"

text \<open>
  The expression manager is the VRM library's; the callback only calls its
  \<open>setValue\<close>. The model keeps the calls in order and the weights they leave, a weight
  being what the last call for its name passed.
\<close>

type_synonym weights = "string \<Rightarrow> real"

definition setValue :: "weights \<Rightarrow> string \<times> real \<Rightarrow> weights" where
  "setValue w c = w(fst c := snd c)"

definition applyCalls :: "(string \<times> real) list \<Rightarrow> weights \<Rightarrow> weights" where
  "applyCalls cs w = foldl setValue w cs"

definition resetVowels :: "(string \<times> real) list" where
  "resetVowels = [(''aa'', 0), (''ih'', 0), (''ou'', 0), (''ee'', 0), (''oh'', 0)]"

text \<open>The calls made once the volume is known: the branch \<open>if (volume > 0.05)\<close>.\<close>

definition mouthCalls :: "real \<Rightarrow> real \<Rightarrow> (string \<times> real) list" where
  "mouthCalls vol time =
     (if vol > 0.05 then
        (let openness = min 1 (vol * 1.5); wobble = sin (time * 20) in
         (''aa'', openness) #
         (if wobble > 0.5 then [(''oh'', openness * 0.5)]
          else if wobble < - 0.5 then [(''ih'', openness * 0.3)]
          else []))
      else [])"

text \<open>
  Section 3 of the frame callback. It runs under \<open>if (analyser && vrm.expressionManager)\<close>:
  without an analyser or without an expression manager no call is made.
\<close>

definition lipSyncCalls ::
  "AnalyserNode option \<Rightarrow> bool \<Rightarrow> real \<Rightarrow> real \<Rightarrow> (string \<times> real) list" where
  "lipSyncCalls analyser hasExpressionManager expressionFactor time =
     (case analyser of
        None \<Rightarrow> []
      | Some a \<Rightarrow>
          if hasExpressionManager
          then resetVowels @ mouthCalls (volume a expressionFactor) time
          else [])"

definition lipSync ::
  "AnalyserNode option \<Rightarrow> bool \<Rightarrow> real \<Rightarrow> real \<Rightarrow> weights \<Rightarrow> weights" where
  "lipSync analyser hasExpressionManager expressionFactor time w =
     applyCalls (lipSyncCalls analyser hasExpressionManager expressionFactor time) w"

definition vowels :: "string list" where
  "vowels = [''aa'', ''ih'', ''ou'', ''ee'', ''oh'']"

section \<open>The live-session hook (useGeminiLive): state\<close>

text \<open>
  The properties of the hook. \<open>onSpeakingChanged\<close> is optional in the source and every
  call of it is guarded; the field says whether the caller passed one.
\<close>

record UseGeminiLiveProps = Persona +
  isActive :: bool
  audioDeviceId :: "string option"
  onSpeakingChanged :: bool

text \<open>
  The platform objects the hook holds, as far as the hook reads or changes them. An
  audio context has its \<open>state\<close>; a new one starts \<open>suspended\<close> and the platform moves it
  to \<open>running\<close>; \<open>close()\<close> moves it to \<open>closed\<close> and is refused on a closed context. A
  node has its outgoing connections; \<open>disconnect()\<close> removes them all, and connecting
  twice to the same destination is one connection.
\<close>

datatype js_error = InvalidStateError | DecodeError

datatype AudioContextState = suspended | running | closed

record AudioContext =
  state :: AudioContextState
  sampleRate :: nat

definition close :: "AudioContext \<Rightarrow> js_error + AudioContext" where
  "close c = (if state c = closed then Inl InvalidStateError else Inr (c\<lparr>state := closed\<rparr>))"

datatype destination =
  ToProcessor | ToInputDestination | ToOutputDestination | ToAnalyser | ToOutputNode

record AudioNode =
  outputs :: "destination list"

record ScriptProcessorNode = AudioNode +
  onaudioprocess :: bool

definition connect :: "destination \<Rightarrow> 'a AudioNode_scheme \<Rightarrow> 'a AudioNode_scheme" where
  "connect d n = (if d \<in> set (outputs n) then n else n\<lparr>outputs := outputs n @ [d]\<rparr>)"

definition disconnect :: "'a AudioNode_scheme \<Rightarrow> 'a AudioNode_scheme" where
  "disconnect n = n\<lparr>outputs := []\<rparr>"

datatype promise_state = Pending | Fulfilled | Rejected

text \<open>
  The state of one hook instance: the two React states \<open>isConnected\<close> and \<open>error\<close>, the
  retry counter, the refs, and what the hook's calls leave outside it:
  \<^item> \<open>isSpeaking\<close>: the value \<open>onSpeakingChanged\<close> was last called with (the application
    keeps it as its \<open>isSpeaking\<close> state, initially false);
  \<^item> \<open>started\<close>: the calls \<open>source.start(when)\<close> in order, each with the source, \<open>when\<close>
    and the duration of the source's buffer; \<open>stopped\<close>: the calls \<open>source.stop()\<close>;
  \<^item> \<open>awaiting\<close>: the runs of \<open>onmessage\<close> suspended at \<open>await decodeAudioData\<close>, each
    with the \<open>interrupted\<close> flag of its message;
  \<^item> \<open>thenQueue\<close>: the blobs of the callbacks registered with \<open>sessionPromise.then\<close>
    that have not run; \<open>sent\<close>: the calls \<open>session.sendRealtimeInput\<close> in order;
  \<^item> \<open>nextId\<close>: the identity the next created buffer source gets;
  \<^item> \<open>connectedWith\<close>: the \<open>systemInstruction\<close> of the configuration last passed to
    \<open>ai.live.connect\<close>;
  \<^item> \<open>sourceNodes\<close>: the buffer sources created so far, each with its identity and
    its node, that is, its outgoing connections.
  \<open>sourcesRef\<close> is a JavaScript \<open>Set\<close>: the sources in insertion order, none twice.
  Times are JavaScript numbers. Their type \<open>'t\<close> is left open: the definitions use its
  order, its \<open>+\<close> and its \<open>0\<close>, and no law of \<open>+\<close> is assumed anywhere.
\<close>

record ('t, 'b) hook =
  isConnected :: bool
  error :: "string option"
  retryCount :: nat
  audioContextRef :: "AudioContext option"
  inputAudioContextRef :: "AudioContext option"
  inputSourceRef :: "AudioNode option"
  scriptProcessorRef :: "ScriptProcessorNode option"
  outputNodeRef :: "AudioNode option"
  analyserRef :: "nat option"
  nextStartTimeRef :: 't
  sessionPromiseRef :: "promise_state option"
  sourcesRef :: "nat list"
  isSpeaking :: bool
  started :: "(nat \<times> 't \<times> 't) list"
  stopped :: "nat list"
  awaiting :: "bool list"
  thenQueue :: "'b list"
  sent :: "'b list"
  nextId :: nat
  connectedWith :: "string option"
  sourceNodes :: "(nat \<times> AudioNode) list"

text \<open>The initial values of \<open>useState\<close> and \<open>useRef\<close>, before anything has run.\<close>

definition init :: "('t::zero, 'b) hook" where
  "init = \<lparr>isConnected = False, error = None, retryCount = 0,
     audioContextRef = None, inputAudioContextRef = None, inputSourceRef = None,
     scriptProcessorRef = None, outputNodeRef = None, analyserRef = None,
     nextStartTimeRef = 0, sessionPromiseRef = None, sourcesRef = [],
     isSpeaking = False, started = [], stopped = [], awaiting = [],
     thenQueue = [], sent = [], nextId = 0, connectedWith = None,
     sourceNodes = []\<rparr>"

section \<open>Teardown and retry\<close>

text \<open>
  \<open>if (ref.current && ref.current.state !== 'closed') ref.current.close()\<close>, for either
  context ref.
\<close>

definition closeRef :: "AudioContext option \<Rightarrow> js_error + AudioContext option" where
  "closeRef r =
     (case r of
        None \<Rightarrow> Inr None
      | Some c \<Rightarrow>
          if state c \<noteq> closed
          then (case close c of Inl e \<Rightarrow> Inl e | Inr c' \<Rightarrow> Inr (Some c'))
          else Inr (Some c))"

text \<open>
  \<open>cleanup\<close>, statement by statement. Every source in \<open>sourcesRef\<close> was started before it
  was added, so \<open>stop()\<close> on it is accepted; \<open>close()\<close> is the one call that can be refused.
\<close>

definition cleanup :: "('t, 'b) hook \<Rightarrow> js_error + ('t, 'b) hook" where
  "cleanup s =
     (let s1 = s\<lparr>scriptProcessorRef :=
                  map_option (\<lambda>n. (disconnect n)\<lparr>onaudioprocess := False\<rparr>) (scriptProcessorRef s)\<rparr>;
          s2 = s1\<lparr>inputSourceRef := map_option disconnect (inputSourceRef s1)\<rparr>;
          s3 = s2\<lparr>outputNodeRef := map_option disconnect (outputNodeRef s2)\<rparr>;
          s4 = s3\<lparr>stopped := stopped s3 @ sourcesRef s3, sourcesRef := []\<rparr>
      in case closeRef (audioContextRef s4) of
           Inl e \<Rightarrow> Inl e
         | Inr a \<Rightarrow>
             (case closeRef (inputAudioContextRef s4) of
                Inl e \<Rightarrow> Inl e
              | Inr i \<Rightarrow>
                  Inr (s4\<lparr>audioContextRef := a, inputAudioContextRef := i,
                          isConnected := False\<rparr>)))"

definition retry :: "('t, 'b) hook \<Rightarrow> ('t, 'b) hook" where
  "retry s = s\<lparr>error := None, isConnected := False, retryCount := retryCount s + 1\<rparr>"

text \<open>
  The outgoing connections of every audio node the hook has: the three nodes of the
  refs, where there is one, and every buffer source it created.
\<close>

definition connections :: "('t, 'b) hook \<Rightarrow> destination list list" where
  "connections s =
     (case scriptProcessorRef s of None \<Rightarrow> [] | Some n \<Rightarrow> [outputs n])
     @ (case inputSourceRef s of None \<Rightarrow> [] | Some n \<Rightarrow> [outputs n])
     @ (case outputNodeRef s of None \<Rightarrow> [] | Some n \<Rightarrow> [outputs n])
     @ map (\<lambda>x. outputs (snd x)) (sourceNodes s)"

section \<open>Session setup and the effect that runs it\<close>

text \<open>
  \<open>initSession\<close> is one \<open>try\<close> block; whatever is thrown inside lands in its \<open>catch\<close>,
  which stores the exception's message with \<open>setError\<close>. The calls that can throw are
  the platform's, so where the setup fails is an input of the model: the stage that
  throws and the message thrown, or nothing. \<open>ai.live.connect\<close> is not awaited, so a
  connection that fails later rejects \<open>sessionPromise\<close> and never reaches the \<open>catch\<close>;
  the stage \<open>Connect\<close> stands for a throw while the client or the call is set up.
  The promise \<open>connect\<close> returns is new: it is pending, no callback is registered with
  it and nothing has been sent on its session. The one \<open>await\<close> of the function, for
  the microphone, is taken in one piece with what follows it.
\<close>

datatype stage =
  NewOutputContext | NewInputContext | GetUserMedia | CreateMediaStreamSource
  | CreateScriptProcessor | CreateGain | CreateAnalyser | Connect

type_synonym failure = "(stage \<times> string) option"

definition fails_at :: "failure \<Rightarrow> stage \<Rightarrow> bool" where
  "fails_at f st = (case f of None \<Rightarrow> False | Some (st', m) \<Rightarrow> st' = st)"

definition message :: "failure \<Rightarrow> string" where
  "message f = (case f of None \<Rightarrow> [] | Some (st', m) \<Rightarrow> m)"

definition setError :: "string \<Rightarrow> ('t, 'b) hook \<Rightarrow> ('t, 'b) hook" where
  "setError m s = s\<lparr>error := Some m\<rparr>"

definition newAudioContext :: "nat \<Rightarrow> AudioContext" where
  "newAudioContext rate = \<lparr>state = suspended, sampleRate = rate\<rparr>"

definition initSession ::
  "failure \<Rightarrow> UseGeminiLiveProps \<Rightarrow> ('t, 'b) hook \<Rightarrow> ('t, 'b) hook" where
  "initSession f p s =
     (if fails_at f NewOutputContext then setError (message f) s else
      let s1 = s\<lparr>audioContextRef := Some (newAudioContext 24000)\<rparr> in
      if fails_at f NewInputContext then setError (message f) s1 else
      let s2 = s1\<lparr>inputAudioContextRef := Some (newAudioContext 16000)\<rparr> in
      if fails_at f GetUserMedia then setError (message f) s2 else
      if fails_at f CreateMediaStreamSource then setError (message f) s2 else
      let s3 = s2\<lparr>inputSourceRef := Some \<lparr>outputs = []\<rparr>\<rparr> in
      if fails_at f CreateScriptProcessor then setError (message f) s3 else
      let s4 = s3\<lparr>scriptProcessorRef := Some \<lparr>outputs = [], onaudioprocess = False\<rparr>\<rparr> in
      if fails_at f CreateGain then setError (message f) s4 else
      let s5 = s4\<lparr>outputNodeRef := Some (connect ToOutputDestination \<lparr>outputs = []\<rparr>)\<rparr> in
      if fails_at f CreateAnalyser then setError (message f) s5 else
      let s6 = s5\<lparr>outputNodeRef := map_option (connect ToAnalyser) (outputNodeRef s5),
                  analyserRef := Some 256\<rparr> in
      if fails_at f Connect then setError (message f) s6 else
      s6\<lparr>connectedWith := Some (systemInstruction p), sessionPromiseRef := Some Pending,
         thenQueue := [], sent := []\<rparr>)"

text \<open>
  The effect of the hook, React's part included. React keeps, for the effect, the
  dependencies of its last run and the cleanup function that run returned. After a
  render whose dependencies differ it calls that cleanup, if there is one, and runs the
  effect again. The effect returns \<open>cleanup\<close> only when it got past its guard.
\<close>

type_synonym deps = "bool \<times> string \<times> string \<times> string \<times> string \<times> bool \<times> string option \<times> nat"

definition deps :: "UseGeminiLiveProps \<Rightarrow> ('t, 'b) hook \<Rightarrow> deps" where
  "deps p s =
     (isActive p, scenario p, personality p, characterName p, apiKey p,
      onSpeakingChanged p, audioDeviceId p, retryCount s)"

record fiber =
  lastDeps :: "deps option"
  hasCleanup :: bool

definition effect ::
  "failure \<Rightarrow> UseGeminiLiveProps \<Rightarrow> ('t, 'b) hook \<Rightarrow> js_error + (bool \<times> ('t, 'b) hook)" where
  "effect f p s =
     (if \<not> isActive p \<or> \<not> truthy (apiKey p) then
        (if \<not> isActive p
         then (case cleanup s of Inl e \<Rightarrow> Inl e | Inr s' \<Rightarrow> Inr (False, s'))
         else Inr (False, s))
      else Inr (True, initSession f p s))"

definition commit ::
  "failure \<Rightarrow> UseGeminiLiveProps \<Rightarrow> fiber \<times> ('t, 'b) hook
     \<Rightarrow> js_error + (fiber \<times> ('t, 'b) hook)" where
  "commit f p fs =
     (let fb = fst fs; s = snd fs in
      if lastDeps fb = Some (deps p s) then Inr (fb, s)
      else
        (case (if hasCleanup fb then cleanup s else Inr s) of
           Inl e \<Rightarrow> Inl e
         | Inr s1 \<Rightarrow>
             (case effect f p s1 of
                Inl e \<Rightarrow> Inl e
              | Inr (c, s2) \<Rightarrow> Inr (\<lparr>lastDeps = Some (deps p s), hasCleanup = c\<rparr>, s2))))"

text \<open>
  A restart of the lifecycle is the teardown of the running instance followed by a
  fresh setup.
\<close>

definition restart ::
  "failure \<Rightarrow> UseGeminiLiveProps \<Rightarrow> ('t, 'b) hook \<Rightarrow> js_error + ('t, 'b) hook" where
  "restart f p s =
     (case cleanup s of Inl e \<Rightarrow> Inl e | Inr s1 \<Rightarrow> Inr (initSession f p s1))"

section \<open>The callbacks of the session\<close>

text \<open>
  A server message, as far as \<open>onmessage\<close> reads it: the inline audio of the first part
  of the model's turn, \<open>undefined\<close> when any link of the optional chain is missing, and
  whether \<open>serverContent.interrupted\<close> is truthy.
\<close>

record LiveServerMessage =
  data :: "string option"
  interrupted :: bool

definition notifySpeaking ::
  "UseGeminiLiveProps \<Rightarrow> bool \<Rightarrow> ('t, 'b) hook \<Rightarrow> ('t, 'b) hook" where
  "notifySpeaking p b s = (if onSpeakingChanged p then s\<lparr>isSpeaking := b\<rparr> else s)"

definition set_add :: "nat \<Rightarrow> nat list \<Rightarrow> nat list" where
  "set_add x xs = (if x \<in> set xs then xs else xs @ [x])"

text \<open>
  \<open>onmessage\<close> in its three parts. The first runs from the call to
  \<open>await decodeAudioData\<close>: it reports speaking and moves the clock up to the context's
  \<open>currentTime\<close>, here \<open>now\<close>. The second runs when the decoded buffer, of duration \<open>d\<close>,
  is there: it creates the source, connects it to the output node, starts it at the
  clock, advances the clock by \<open>d\<close> and adds the source to the set. The third is the
  interruption branch. \<open>base64ToUint8Array\<close> is taken to return.
\<close>

definition onmessage_begin ::
  "UseGeminiLiveProps \<Rightarrow> 't::linorder \<Rightarrow> ('t, 'b) hook \<Rightarrow> ('t, 'b) hook" where
  "onmessage_begin p now s =
     (notifySpeaking p True s)\<lparr>nextStartTimeRef := max (nextStartTimeRef s) now\<rparr>"

definition onmessage_schedule :: "'t::plus \<Rightarrow> ('t, 'b) hook \<Rightarrow> ('t, 'b) hook" where
  "onmessage_schedule d s =
     s\<lparr>sourceNodes := sourceNodes s @ [(nextId s, connect ToOutputNode \<lparr>outputs = []\<rparr>)],
       started := started s @ [(nextId s, nextStartTimeRef s, d)],
       nextStartTimeRef := nextStartTimeRef s + d,
       sourcesRef := set_add (nextId s) (sourcesRef s),
       nextId := Suc (nextId s)\<rparr>"

definition onmessage_interrupted ::
  "UseGeminiLiveProps \<Rightarrow> ('t::zero, 'b) hook \<Rightarrow> ('t, 'b) hook" where
  "onmessage_interrupted p s =
     notifySpeaking p False
       (s\<lparr>stopped := stopped s @ sourcesRef s, sourcesRef := [], nextStartTimeRef := 0\<rparr>)"

definition onmessage_end ::
  "UseGeminiLiveProps \<Rightarrow> bool \<Rightarrow> ('t::zero, 'b) hook \<Rightarrow> ('t, 'b) hook" where
  "onmessage_end p intr s = (if intr then onmessage_interrupted p s else s)"

text \<open>
  One run of \<open>onmessage\<close> from call to return, nothing else running in between. \<open>dec\<close> is
  what \<open>decodeAudioData\<close> gives: the duration of the buffer, or nothing when its promise
  rejects. The rejection is not caught: the run ends there, with the state as the first
  part left it.
\<close>

definition onmessage ::
  "UseGeminiLiveProps \<Rightarrow> LiveServerMessage \<Rightarrow> 't \<Rightarrow> 't option
     \<Rightarrow> ('t::{linorder,plus,zero}, 'b) hook
     \<Rightarrow> (js_error \<times> ('t, 'b) hook) + ('t, 'b) hook" where
  "onmessage p m now dec s =
     (if truthy_opt (data m) then
        (let s1 = onmessage_begin p now s in
         case dec of
           None \<Rightarrow> Inl (DecodeError, s1)
         | Some d \<Rightarrow> Inr (onmessage_end p (interrupted m) (onmessage_schedule d s1)))
      else Inr (onmessage_end p (interrupted m) s))"

definition state_of :: "('e \<times> 's) + 's \<Rightarrow> 's" where
  "state_of r = (case r of Inl (e, s) \<Rightarrow> s | Inr s \<Rightarrow> s)"

text \<open>The listener of a source's \<open>ended\<close> event.\<close>

definition source_ended ::
  "UseGeminiLiveProps \<Rightarrow> nat \<Rightarrow> ('t, 'b) hook \<Rightarrow> ('t, 'b) hook" where
  "source_ended p sid s =
     (let s1 = s\<lparr>sourcesRef := removeAll sid (sourcesRef s)\<rparr> in
      if sourcesRef s1 = [] then notifySpeaking p False s1 else s1)"

text \<open>
  \<open>onopen\<close> installs the capture handler and wires the capture graph. The handler
  registers a callback with \<open>sessionPromise.then\<close>: on a fulfilled promise the callback
  runs before the next event and sends the blob; on a pending one it waits in
  registration order; on a rejected one it never runs. \<open>createPcmBlob\<close> is the helper
  that encodes a capture buffer; it is a parameter.
\<close>

definition onopen :: "('t, 'b) hook \<Rightarrow> ('t, 'b) hook" where
  "onopen s =
     s\<lparr>isConnected := True,
       scriptProcessorRef :=
         map_option (\<lambda>n. connect ToInputDestination (n\<lparr>onaudioprocess := True\<rparr>))
           (scriptProcessorRef s),
       inputSourceRef := map_option (connect ToProcessor) (inputSourceRef s)\<rparr>"

definition capturing :: "('t, 'b) hook \<Rightarrow> bool" where
  "capturing s = (case scriptProcessorRef s of None \<Rightarrow> False | Some n \<Rightarrow> onaudioprocess n)"

definition onaudioprocess_handler ::
  "('a \<Rightarrow> 'b) \<Rightarrow> 'a \<Rightarrow> ('t, 'b) hook \<Rightarrow> ('t, 'b) hook" where
  "onaudioprocess_handler createPcmBlob inputData s =
     (if sessionPromiseRef s = Some Fulfilled
      then s\<lparr>sent := sent s @ [createPcmBlob inputData]\<rparr>
      else s\<lparr>thenQueue := thenQueue s @ [createPcmBlob inputData]\<rparr>)"

definition session_fulfilled :: "('t, 'b) hook \<Rightarrow> ('t, 'b) hook" where
  "session_fulfilled s =
     (if sessionPromiseRef s = Some Pending
      then s\<lparr>sessionPromiseRef := Some Fulfilled, sent := sent s @ thenQueue s,
             thenQueue := []\<rparr>
      else s)"

definition session_rejected :: "('t, 'b) hook \<Rightarrow> ('t, 'b) hook" where
  "session_rejected s =
     (if sessionPromiseRef s = Some Pending then s\<lparr>sessionPromiseRef := Some Rejected\<rparr>
      else s)"

definition onclose :: "('t, 'b) hook \<Rightarrow> ('t, 'b) hook" where
  "onclose s = s\<lparr>isConnected := False\<rparr>"

definition onerror :: "('t, 'b) hook \<Rightarrow> ('t, 'b) hook" where
  "onerror s = setError ''Connection error occurred.'' s"

section \<open>One lifecycle as a sequence of events\<close>

text \<open>
  What can happen to a running instance, one event at a time: the session opens, the
  capture node has a buffer, the session promise settles, a message arrives, a decode
  that the \<open>k\<close>-th suspended run of \<open>onmessage\<close> waits for succeeds or fails, a source
  ends, the session closes or reports an error. A buffer reaches the capture handler
  only while the handler is installed.
\<close>

datatype ('t, 'a) event =
  Open | AudioProcess 'a | SessionFulfilled | SessionRejected
  | Message LiveServerMessage 't | Decoded nat 't | DecodeFailed nat | Ended nat
  | Closed | Errored

definition drop_nth :: "nat \<Rightarrow> 'x list \<Rightarrow> 'x list" where
  "drop_nth k xs = take k xs @ drop (Suc k) xs"

fun dispatch ::
  "UseGeminiLiveProps \<Rightarrow> ('a \<Rightarrow> 'b) \<Rightarrow> ('t, 'a) event
     \<Rightarrow> ('t::{linorder,plus,zero}, 'b) hook \<Rightarrow> ('t, 'b) hook" where
  "dispatch p enc Open s = onopen s"
| "dispatch p enc (AudioProcess b) s =
     (if capturing s then onaudioprocess_handler enc b s else s)"
| "dispatch p enc SessionFulfilled s = session_fulfilled s"
| "dispatch p enc SessionRejected s = session_rejected s"
| "dispatch p enc (Message m now) s =
     (if truthy_opt (data m)
      then (onmessage_begin p now s)\<lparr>awaiting := awaiting s @ [interrupted m]\<rparr>
      else onmessage_end p (interrupted m) s)"
| "dispatch p enc (Decoded k d) s =
     (if k < length (awaiting s)
      then onmessage_end p (awaiting s ! k)
             (onmessage_schedule d (s\<lparr>awaiting := drop_nth k (awaiting s)\<rparr>))
      else s)"
| "dispatch p enc (DecodeFailed k) s =
     (if k < length (awaiting s) then s\<lparr>awaiting := drop_nth k (awaiting s)\<rparr> else s)"
| "dispatch p enc (Ended sid) s = source_ended p sid s"
| "dispatch p enc Closed s = onclose s"
| "dispatch p enc Errored s = onerror s"

definition run ::
  "UseGeminiLiveProps \<Rightarrow> ('a \<Rightarrow> 'b) \<Rightarrow> ('t, 'a) event list
     \<Rightarrow> ('t::{linorder,plus,zero}, 'b) hook \<Rightarrow> ('t, 'b) hook" where
  "run p enc evs s = foldl (\<lambda>s e. dispatch p enc e s) s evs"

text \<open>The buffers the capture handler was called with during a run, in order.\<close>

fun captured ::
  "UseGeminiLiveProps \<Rightarrow> ('a \<Rightarrow> 'b) \<Rightarrow> ('t, 'a) event list
     \<Rightarrow> ('t::{linorder,plus,zero}, 'b) hook \<Rightarrow> 'a list" where
  "captured p enc [] s = []"
| "captured p enc (e # es) s =
     (case e of AudioProcess b \<Rightarrow> if capturing s then [b] else [] | _ \<Rightarrow> [])
     @ captured p enc es (dispatch p enc e s)"

text \<open>
  The same lifecycle with every run of \<open>onmessage\<close> taken whole: a message is handled
  from call to return before anything else happens.
\<close>

datatype 't occurrence = Handled LiveServerMessage 't "'t option" | SourceEnded nat

fun occur ::
  "UseGeminiLiveProps \<Rightarrow> 't occurrence \<Rightarrow> ('t::{linorder,plus,zero}, 'b) hook
     \<Rightarrow> ('t, 'b) hook" where
  "occur p (Handled m now dec) s = state_of (onmessage p m now dec s)"
| "occur p (SourceEnded sid) s = source_ended p sid s"

definition serial ::
  "UseGeminiLiveProps \<Rightarrow> 't occurrence list \<Rightarrow> ('t::{linorder,plus,zero}, 'b) hook
     \<Rightarrow> ('t, 'b) hook" where
  "serial p os s = foldl (\<lambda>s x. occur p x s) s os"

fun completes :: "'t occurrence \<Rightarrow> bool" where
  "completes (Handled m now dec) = (truthy_opt (data m) \<longrightarrow> dec \<noteq> None)"
| "completes (SourceEnded sid) = True"

text \<open>
  A sequence of audio fragments, each a message with audio and without the
  interruption flag, with the context's time at its arrival and the duration of its
  buffer, handled one after the other.
\<close>

definition deliver ::
  "UseGeminiLiveProps \<Rightarrow> (LiveServerMessage \<times> 't \<times> 't) list
     \<Rightarrow> ('t::{linorder,plus,zero}, 'b) hook \<Rightarrow> ('t, 'b) hook" where
  "deliver p fs s = serial p (map (\<lambda>(m, now, d). Handled m now (Some d)) fs) s"

definition is_fragment :: "LiveServerMessage \<times> 't \<times> 't \<Rightarrow> bool" where
  "is_fragment x = (truthy_opt (data (fst x)) \<and> \<not> interrupted (fst x))"

text \<open>The scheduled start and end of every source started so far, in order.\<close>

definition intervals :: "('t::plus, 'b) hook \<Rightarrow> ('t \<times> 't) list" where
  "intervals s = map (\<lambda>(sid, w, d). (w, w + d)) (started s)"

text \<open>
  The schedule in the specification's words: a fragment starts at the maximum of the
  current scheduled end and the clock's now, and the scheduled end becomes that start
  plus the fragment's duration.
\<close>

fun schedule :: "'t::{linorder,plus} \<Rightarrow> ('t \<times> 't) list \<Rightarrow> ('t \<times> 't) list" where
  "schedule e [] = []"
| "schedule e ((now, d) # fs) = (max e now, max e now + d) # schedule (max e now + d) fs"

definition no_overlap :: "('t::linorder \<times> 't) list \<Rightarrow> bool" where
  "no_overlap xs = (\<forall>i. Suc i < length xs \<longrightarrow> snd (xs ! i) \<le> fst (xs ! Suc i))"

definition speaking_matches :: "('t, 'b) hook \<Rightarrow> bool" where
  "speaking_matches s = (isSpeaking s = (sourcesRef s \<noteq> []))"

text \<open>
  The state of the outbound queue: a fulfilled promise has no callback waiting, and
  nothing is sent on a session whose promise is not fulfilled.
\<close>

definition outbound_ok :: "('t, 'b) hook \<Rightarrow> bool" where
  "outbound_ok s =
     ((sessionPromiseRef s = Some Fulfilled \<longrightarrow> thenQueue s = [])
      \<and> (sessionPromiseRef s \<noteq> Some Fulfilled \<longrightarrow> sent s = []))"

text \<open>
  For runs of \<open>onmessage\<close> that overlap at the decode: the intervals scheduled so far do
  not overlap and the clock is at or after the end of the last one. An event is
  uninterrupted when it is not a message with the interruption flag.
\<close>

definition chained :: "('t::{linorder,plus}, 'b) hook \<Rightarrow> bool" where
  "chained s =
     (no_overlap (intervals s)
      \<and> (intervals s \<noteq> [] \<longrightarrow> snd (last (intervals s)) \<le> nextStartTimeRef s))"

definition uninterrupted :: "('t, 'a) event \<Rightarrow> bool" where
  "uninterrupted e = (case e of Message m now \<Rightarrow> \<not> interrupted m | _ \<Rightarrow> True)"

section \<open>Inputs used in the examples\<close>

definition call_props :: UseGeminiLiveProps where
  "call_props = \<lparr>apiKey = ''k'', characterName = ''Mia'', scenario = ''cafe'',
     personality = ''Shy'', isActive = True, audioDeviceId = None, onSpeakingChanged = True\<rparr>"

definition audio_msg :: LiveServerMessage where
  "audio_msg = \<lparr>data = Some ''UklGRg=='', interrupted = False\<rparr>"

definition interrupt_msg :: LiveServerMessage where
  "interrupt_msg = \<lparr>data = None, interrupted = True\<rparr>"

definition audio_interrupt_msg :: LiveServerMessage where
  "audio_interrupt_msg = \<lparr>data = Some ''UklGRg=='', interrupted = True\<rparr>"

text \<open>
  The effect before its first run; a call whose session reported an error after a
  successful setup; a call that is connected and has two sources playing.
\<close>

definition unmounted :: fiber where
  "unmounted = \<lparr>lastDeps = None, hasCleanup = False\<rparr>"

definition failed_call :: "(real, nat) hook" where
  "failed_call = onerror (initSession None call_props init)"

definition playing_call :: "(real, nat) hook" where
  "playing_call =
     deliver call_props [(audio_msg, 0, 1), (audio_msg, 0, 1)]
       (onopen (initSession None call_props init))"

section \<open>Properties of the setup screen\<close>

text \<open>
  C9. In every application state in which the model URL is null, the scenario text is
  empty or the API key is empty, \<open>handleStart\<close> returns the state it was given and
  issues no request, whatever the background mode: no step change, no generation.
\<close>

theorem handleStart_guard_frame:
  assumes "vrmUrl st = None \<or> scenario st = [] \<or> apiKey st = []"
  shows "handleStart bgMode st = (st, [])"
  using assms by (auto simp: handleStart_def truthy_def truthy_opt_def)

theorem handleStart_guard_frame_witness:
  "handleStart Generate
     \<lparr>apiKey = ''k'', characterName = ''Mia'', scenario = [], personality = ''Friendly'',
      step = Setup, vrmUrl = Some ''blob:1'', backgroundUrl = None\<rparr>
   = (\<lparr>apiKey = ''k'', characterName = ''Mia'', scenario = [], personality = ''Friendly'',
       step = Setup, vrmUrl = Some ''blob:1'', backgroundUrl = None\<rparr>, [])"
  by (rule handleStart_guard_frame) simp

section \<open>Properties of the system instruction\<close>



section \<open>Properties of the lip-sync driver\<close>

lemma applyCalls_append: "applyCalls (cs @ ds) w = applyCalls ds (applyCalls cs w)"
  by (simp add: applyCalls_def)

lemma resetVowels_zero: "x \<in> set vowels \<Longrightarrow> applyCalls resetVowels w x = 0"
  by (auto simp: applyCalls_def resetVowels_def setValue_def vowels_def)

text \<open>
  C10. On a frame on which the lip-sync section runs (there is an analyser and an
  expression manager), its first five calls set the five vowels to zero, in the order
  of the source. If the scaled volume is at most 0.05 the five weights are zero after
  the frame. Otherwise \<open>aa\<close> is \<open>min 1 (volume * 1.5)\<close>, \<open>ou\<close> and \<open>ee\<close> are zero, at
  most one of \<open>oh\<close> and \<open>ih\<close> is not zero, and every vowel weight lies between 0 and 1.
  The weights are those the calls pass; the numbers are reals.
\<close>

theorem lipSync_vowels:
  assumes "analyser = Some a" and "hasExpressionManager"
  shows "take 5 (lipSyncCalls analyser hasExpressionManager expressionFactor time) = resetVowels
    \<and> (\<forall>x \<in> set vowels. applyCalls resetVowels w x = 0)
    \<and> (volume a expressionFactor \<le> 0.05 \<longrightarrow>
         (\<forall>x \<in> set vowels. lipSync analyser hasExpressionManager expressionFactor time w x = 0))
    \<and> (volume a expressionFactor > 0.05 \<longrightarrow>
         lipSync analyser hasExpressionManager expressionFactor time w ''aa''
           = min 1 (volume a expressionFactor * 1.5)
         \<and> lipSync analyser hasExpressionManager expressionFactor time w ''ou'' = 0
         \<and> lipSync analyser hasExpressionManager expressionFactor time w ''ee'' = 0
         \<and> (lipSync analyser hasExpressionManager expressionFactor time w ''oh'' = 0
            \<or> lipSync analyser hasExpressionManager expressionFactor time w ''ih'' = 0)
         \<and> (\<forall>x \<in> set vowels.
               0 \<le> lipSync analyser hasExpressionManager expressionFactor time w x
               \<and> lipSync analyser hasExpressionManager expressionFactor time w x \<le> 1))"
proof -
  let ?v = "volume a expressionFactor"
  let ?w = "lipSync analyser hasExpressionManager expressionFactor time w"
  have calls: "lipSyncCalls analyser hasExpressionManager expressionFactor time
      = resetVowels @ mouthCalls ?v time"
    using assms by (simp add: lipSyncCalls_def)
  have first: "take 5 (lipSyncCalls analyser hasExpressionManager expressionFactor time)
      = resetVowels"
    by (simp add: calls) (simp add: resetVowels_def)
  have reset: "\<forall>x \<in> set vowels. applyCalls resetVowels w x = 0"
    by (simp add: resetVowels_zero)
  have w: "?w = applyCalls (mouthCalls ?v time) (applyCalls resetVowels w)"
    by (simp add: lipSync_def calls applyCalls_append)
  have quiet: "\<forall>x \<in> set vowels. ?w x = 0" if "?v \<le> 0.05"
  proof -
    from that have "mouthCalls ?v time = []" by (simp add: mouthCalls_def)
    then have "?w = applyCalls resetVowels w" by (simp add: w) (simp add: applyCalls_def)
    then show ?thesis by (simp add: resetVowels_zero)
  qed
  have loud: "?w ''aa'' = min 1 (?v * 1.5) \<and> ?w ''ou'' = 0 \<and> ?w ''ee'' = 0
      \<and> (?w ''oh'' = 0 \<or> ?w ''ih'' = 0)
      \<and> (\<forall>x \<in> set vowels. 0 \<le> ?w x \<and> ?w x \<le> 1)" if "?v > 0.05"
  proof -
    let ?o = "min 1 (?v * 1.5)"
    have o: "0 \<le> ?o" "?o \<le> 1" using that by auto
    have z: "applyCalls resetVowels w x = 0" if "x \<in> set vowels" for x
      using that by (rule resetVowels_zero)
    consider (oh) "sin (time * 20) > 0.5"
      | (ih) "\<not> sin (time * 20) > 0.5" "sin (time * 20) < - 0.5"
      | (none) "\<not> sin (time * 20) > 0.5" "\<not> sin (time * 20) < - 0.5"
      by blast
    then show ?thesis
    proof cases
      case oh
      then have m: "mouthCalls ?v time = [(''aa'', ?o), (''oh'', ?o * 0.5)]"
        using that by (simp add: mouthCalls_def Let_def)
      show ?thesis
        using o z by (auto simp: w m applyCalls_def setValue_def vowels_def)
    next
      case ih
      then have m: "mouthCalls ?v time = [(''aa'', ?o), (''ih'', ?o * 0.3)]"
        using that by (simp add: mouthCalls_def Let_def)
      show ?thesis
        using o z by (auto simp: w m applyCalls_def setValue_def vowels_def)
    next
      case none
      then have m: "mouthCalls ?v time = [(''aa'', ?o)]"
        using that by (simp add: mouthCalls_def Let_def)
      show ?thesis
        using o z by (auto simp: w m applyCalls_def setValue_def vowels_def)
    qed
  qed
  from first reset quiet loud show ?thesis by blast
qed

theorem lipSync_vowels_witness:
  "volume \<lparr>frequencyBinCount = 10, byteFrequencyData = (\<lambda>i. 200)\<rparr> 1 > 0.05
   \<and> take 5 (lipSyncCalls (Some \<lparr>frequencyBinCount = 10, byteFrequencyData = (\<lambda>i. 200)\<rparr>)
        True 1 0) = resetVowels
   \<and> lipSync (Some \<lparr>frequencyBinCount = 10, byteFrequencyData = (\<lambda>i. 200)\<rparr>)
        True 1 0 (\<lambda>x. 0.7) ''aa'' = 1
   \<and> lipSync (Some \<lparr>frequencyBinCount = 10, byteFrequencyData = (\<lambda>i. 200)\<rparr>)
        True 1 0 (\<lambda>x. 0.7) ''ou'' = 0
   \<and> volume \<lparr>frequencyBinCount = 10, byteFrequencyData = (\<lambda>i. 0)\<rparr> 1 \<le> 0.05
   \<and> lipSync (Some \<lparr>frequencyBinCount = 10, byteFrequencyData = (\<lambda>i. 0)\<rparr>)
        True 1 0 (\<lambda>x. 0.7) ''aa'' = 0"
proof -
  have loud: "volume \<lparr>frequencyBinCount = 10, byteFrequencyData = (\<lambda>i. 200)\<rparr> 1 = 1"
    by code_simp
  have quiet: "volume \<lparr>frequencyBinCount = 10, byteFrequencyData = (\<lambda>i. 0)\<rparr> 1 = 0"
    by code_simp
  show ?thesis
    using
      lipSync_vowels [of "Some \<lparr>frequencyBinCount = 10, byteFrequencyData = (\<lambda>i. 200)\<rparr>"
        "\<lparr>frequencyBinCount = 10, byteFrequencyData = (\<lambda>i. 200)\<rparr>" True 1 0 "\<lambda>x. 0.7"]
      lipSync_vowels [of "Some \<lparr>frequencyBinCount = 10, byteFrequencyData = (\<lambda>i. 0)\<rparr>"
        "\<lparr>frequencyBinCount = 10, byteFrequencyData = (\<lambda>i. 0)\<rparr>" True 1 0 "\<lambda>x. 0.7"]
    by (simp add: loud quiet vowels_def)
qed

section \<open>Properties of the teardown\<close>

lemma closeRef_eq: "closeRef r = Inr (map_option (\<lambda>c. c\<lparr>state := closed\<rparr>) r)"
proof (cases r)
  case None
  then show ?thesis by (simp add: closeRef_def)
next
  case (Some c)
  show ?thesis
  proof (cases "state c = closed")
    case True
    then have "c\<lparr>state := closed\<rparr> = c" by simp
    with True Some show ?thesis by (simp add: closeRef_def)
  next
    case False
    with Some show ?thesis by (simp add: closeRef_def close_def)
  qed
qed

lemma cleanup_eq:
  "cleanup s =
     Inr (s\<lparr>scriptProcessorRef :=
             map_option (\<lambda>n. n\<lparr>outputs := [], onaudioprocess := False\<rparr>) (scriptProcessorRef s),
           inputSourceRef := map_option (\<lambda>n. n\<lparr>outputs := []\<rparr>) (inputSourceRef s),
           outputNodeRef := map_option (\<lambda>n. n\<lparr>outputs := []\<rparr>) (outputNodeRef s),
           stopped := stopped s @ sourcesRef s, sourcesRef := [],
           audioContextRef := map_option (\<lambda>c. c\<lparr>state := closed\<rparr>) (audioContextRef s),
           inputAudioContextRef :=
             map_option (\<lambda>c. c\<lparr>state := closed\<rparr>) (inputAudioContextRef s),
           isConnected := False\<rparr>)"
  by (simp add: cleanup_def closeRef_eq disconnect_def [abs_def])

text \<open>
  C5, as the code has it. From any state \<open>cleanup\<close> ends without an error, and
  \<open>cleanup\<close> on the state it leaves ends without an error and returns that state
  unchanged. In the state it leaves, each of the three nodes of the refs is the node it
  was with no outgoing connection (the script processor also without its handler),
  every source of the set has been stopped and the set is empty, each of the two
  contexts is the context it was with the state \<open>closed\<close>, and \<open>isConnected\<close> is false. A
  ref that held nothing holds nothing. The buffer sources are as they were: the
  teardown stops them and does not disconnect them.
\<close>

theorem cleanup_idempotent:
  "\<exists>s'. cleanup s = Inr s' \<and> cleanup s' = Inr s'
     \<and> scriptProcessorRef s'
         = map_option (\<lambda>n. n\<lparr>outputs := [], onaudioprocess := False\<rparr>) (scriptProcessorRef s)
     \<and> inputSourceRef s' = map_option (\<lambda>n. n\<lparr>outputs := []\<rparr>) (inputSourceRef s)
     \<and> outputNodeRef s' = map_option (\<lambda>n. n\<lparr>outputs := []\<rparr>) (outputNodeRef s)
     \<and> stopped s' = stopped s @ sourcesRef s \<and> sourcesRef s' = []
     \<and> sourceNodes s' = sourceNodes s
     \<and> audioContextRef s' = map_option (\<lambda>c. c\<lparr>state := closed\<rparr>) (audioContextRef s)
     \<and> inputAudioContextRef s'
         = map_option (\<lambda>c. c\<lparr>state := closed\<rparr>) (inputAudioContextRef s)
     \<and> \<not> isConnected s'"
proof -
  let ?s' = "s\<lparr>scriptProcessorRef :=
             map_option (\<lambda>n. n\<lparr>outputs := [], onaudioprocess := False\<rparr>) (scriptProcessorRef s),
           inputSourceRef := map_option (\<lambda>n. n\<lparr>outputs := []\<rparr>) (inputSourceRef s),
           outputNodeRef := map_option (\<lambda>n. n\<lparr>outputs := []\<rparr>) (outputNodeRef s),
           stopped := stopped s @ sourcesRef s, sourcesRef := [],
           audioContextRef := map_option (\<lambda>c. c\<lparr>state := closed\<rparr>) (audioContextRef s),
           inputAudioContextRef :=
             map_option (\<lambda>c. c\<lparr>state := closed\<rparr>) (inputAudioContextRef s),
           isConnected := False\<rparr>"
  have first: "cleanup s = Inr ?s'" by (rule cleanup_eq)
  have again: "cleanup ?s' = Inr ?s'"
    by (simp add: cleanup_eq [of ?s'] option.map_comp comp_def)
  have fields: "scriptProcessorRef ?s'
         = map_option (\<lambda>n. n\<lparr>outputs := [], onaudioprocess := False\<rparr>) (scriptProcessorRef s)
     \<and> inputSourceRef ?s' = map_option (\<lambda>n. n\<lparr>outputs := []\<rparr>) (inputSourceRef s)
     \<and> outputNodeRef ?s' = map_option (\<lambda>n. n\<lparr>outputs := []\<rparr>) (outputNodeRef s)
     \<and> stopped ?s' = stopped s @ sourcesRef s \<and> sourcesRef ?s' = []
     \<and> sourceNodes ?s' = sourceNodes s
     \<and> audioContextRef ?s' = map_option (\<lambda>c. c\<lparr>state := closed\<rparr>) (audioContextRef s)
     \<and> inputAudioContextRef ?s'
         = map_option (\<lambda>c. c\<lparr>state := closed\<rparr>) (inputAudioContextRef s)
     \<and> \<not> isConnected ?s'"
    by simp
  from first again fields show ?thesis by blast
qed

lemma playing_call_fields:
  "sourcesRef playing_call = [0, 1]" "stopped playing_call = []"
  "sourceNodes playing_call
     = [(0, \<lparr>outputs = [ToOutputNode]\<rparr>), (1, \<lparr>outputs = [ToOutputNode]\<rparr>)]"
  "audioContextRef playing_call = Some \<lparr>state = suspended, sampleRate = 24000\<rparr>"
  "inputAudioContextRef playing_call = Some \<lparr>state = suspended, sampleRate = 16000\<rparr>"
  "scriptProcessorRef playing_call
     = Some \<lparr>outputs = [ToInputDestination], onaudioprocess = True\<rparr>"
  "inputSourceRef playing_call = Some \<lparr>outputs = [ToProcessor]\<rparr>"
  "outputNodeRef playing_call = Some \<lparr>outputs = [ToOutputDestination, ToAnalyser]\<rparr>"
  "isConnected playing_call" "nextStartTimeRef playing_call = 2"
  by (simp_all add: playing_call_def deliver_def serial_def onmessage_def state_of_def
      onmessage_end_def onmessage_schedule_def onmessage_begin_def notifySpeaking_def
      set_add_def Let_def audio_msg_def call_props_def init_def truthy_opt_def truthy_def
      onopen_def initSession_def fails_at_def newAudioContext_def connect_def)

theorem cleanup_idempotent_witness:
  "\<exists>s'. cleanup playing_call = Inr s' \<and> cleanup s' = Inr s'
     \<and> scriptProcessorRef s' = Some \<lparr>outputs = [], onaudioprocess = False\<rparr>
     \<and> inputSourceRef s' = Some \<lparr>outputs = []\<rparr>
     \<and> outputNodeRef s' = Some \<lparr>outputs = []\<rparr>
     \<and> stopped s' = [0, 1] \<and> sourcesRef s' = []
     \<and> audioContextRef s' = Some \<lparr>state = closed, sampleRate = 24000\<rparr>
     \<and> inputAudioContextRef s' = Some \<lparr>state = closed, sampleRate = 16000\<rparr>
     \<and> \<not> isConnected s'"
  using cleanup_idempotent [of playing_call]
  by (simp add: playing_call_fields) blast

text \<open>
  The claim as written fails on a call with two sources playing: after the teardown
  the two sources, stopped, still have their connection to the output node. The three
  nodes of the refs have none.
\<close>

theorem cleanup_leaves_sources_connected:
  "map_sum id connections (cleanup playing_call)
     = Inr [[], [], [], [ToOutputNode], [ToOutputNode]]
   \<and> map_sum id stopped (cleanup playing_call) = Inr [0, 1]
   \<and> map_sum id sourcesRef (cleanup playing_call) = Inr []"
  by (simp add: cleanup_eq connections_def playing_call_fields)

section \<open>Properties of the setup\<close>

lemma initSession_fails:
  "error (initSession (Some (st, m)) p s) = Some m
   \<and> isConnected (initSession (Some (st, m)) p s) = isConnected s"
  by (cases st) (simp_all add: initSession_def fails_at_def message_def setError_def Let_def)

lemma initSession_output_context:
  "st \<noteq> NewOutputContext \<Longrightarrow>
   audioContextRef (initSession (Some (st, m)) p s)
     = Some \<lparr>state = suspended, sampleRate = 24000\<rparr>"
  by (cases st)
    (simp_all add: initSession_def fails_at_def message_def setError_def Let_def
      newAudioContext_def)

lemma initSession_input_context:
  "st \<noteq> NewOutputContext \<Longrightarrow> st \<noteq> NewInputContext \<Longrightarrow>
   inputAudioContextRef (initSession (Some (st, m)) p s)
     = Some \<lparr>state = suspended, sampleRate = 16000\<rparr>"
  by (cases st)
    (simp_all add: initSession_def fails_at_def message_def setError_def Let_def
      newAudioContext_def)

text \<open>
  C4, as the code has it. When the setup throws at some stage with message \<open>m\<close>, then
  afterwards \<open>isConnected\<close> is what it was before the setup (false, when the setup
  started disconnected) and the error string is \<open>m\<close>. The contexts created before the
  throw are not closed by the failure: the output context is there, in the state
  \<open>suspended\<close> it was created in, unless its own construction threw, and so is the input
  context unless one of the two constructions threw. The teardown ends without an error
  on that state and closes them: after it the same two contexts are there with the
  state \<open>closed\<close>, the error string is still \<open>m\<close> and \<open>isConnected\<close> is false.
\<close>

theorem initSession_failure:
  assumes "f = Some (st, m)"
  shows "error (initSession f p s) = Some m
    \<and> isConnected (initSession f p s) = isConnected s
    \<and> (st \<noteq> NewOutputContext \<longrightarrow>
         audioContextRef (initSession f p s) = Some \<lparr>state = suspended, sampleRate = 24000\<rparr>)
    \<and> (st \<noteq> NewOutputContext \<and> st \<noteq> NewInputContext \<longrightarrow>
         inputAudioContextRef (initSession f p s)
           = Some \<lparr>state = suspended, sampleRate = 16000\<rparr>)
    \<and> (\<exists>s'. cleanup (initSession f p s) = Inr s'
           \<and> error s' = Some m \<and> \<not> isConnected s'
           \<and> (st \<noteq> NewOutputContext \<longrightarrow>
                audioContextRef s' = Some \<lparr>state = closed, sampleRate = 24000\<rparr>)
           \<and> (st \<noteq> NewOutputContext \<and> st \<noteq> NewInputContext \<longrightarrow>
                inputAudioContextRef s' = Some \<lparr>state = closed, sampleRate = 16000\<rparr>))"
proof -
  let ?s = "initSession f p s"
  obtain s' where s': "cleanup ?s = Inr s'" "error s' = error ?s" "\<not> isConnected s'"
    "audioContextRef s' = map_option (\<lambda>c. c\<lparr>state := closed\<rparr>) (audioContextRef ?s)"
    "inputAudioContextRef s' = map_option (\<lambda>c. c\<lparr>state := closed\<rparr>) (inputAudioContextRef ?s)"
    by (simp add: cleanup_eq)
  have a: "audioContextRef s' = Some \<lparr>state = closed, sampleRate = 24000\<rparr>"
    if "st \<noteq> NewOutputContext"
    using that s'(4) assms initSession_output_context [of st m p s] by simp
  have i: "inputAudioContextRef s' = Some \<lparr>state = closed, sampleRate = 16000\<rparr>"
    if "st \<noteq> NewOutputContext \<and> st \<noteq> NewInputContext"
    using that s'(5) assms initSession_input_context [of st m p s] by simp
  have e: "error s' = Some m" "\<not> isConnected s'"
    using s'(2,3) assms initSession_fails [of st m p s] by simp_all
  show ?thesis
    using assms s'(1) a i e initSession_fails [of st m p s]
      initSession_output_context [of st m p s] initSession_input_context [of st m p s]
    by blast
qed

theorem initSession_failure_witness:
  "error (initSession (Some (GetUserMedia, ''Permission denied'')) call_props
      (init :: (real, nat) hook)) = Some ''Permission denied''
   \<and> \<not> isConnected (initSession (Some (GetUserMedia, ''Permission denied'')) call_props
      (init :: (real, nat) hook))
   \<and> audioContextRef (initSession (Some (GetUserMedia, ''Permission denied'')) call_props
      (init :: (real, nat) hook)) = Some \<lparr>state = suspended, sampleRate = 24000\<rparr>
   \<and> (\<exists>s'. cleanup (initSession (Some (GetUserMedia, ''Permission denied'')) call_props
          (init :: (real, nat) hook)) = Inr s'
        \<and> error s' = Some ''Permission denied''
        \<and> audioContextRef s' = Some \<lparr>state = closed, sampleRate = 24000\<rparr>
        \<and> inputAudioContextRef s' = Some \<lparr>state = closed, sampleRate = 16000\<rparr>)"
  using initSession_failure [of "Some (GetUserMedia, ''Permission denied'')" GetUserMedia
      "''Permission denied''" call_props "init :: (real, nat) hook"]
  by (auto simp: init_def)

text \<open>
  The claim as written fails after a refused microphone: both contexts are there, each
  in the state \<open>suspended\<close> it was created in, and neither is closed.
\<close>

theorem initSession_leaves_contexts_open:
  "audioContextRef
       (initSession (Some (GetUserMedia, ''Permission denied'')) call_props
          (init :: (real, nat) hook)) = Some \<lparr>state = suspended, sampleRate = 24000\<rparr>
   \<and> inputAudioContextRef
       (initSession (Some (GetUserMedia, ''Permission denied'')) call_props
          (init :: (real, nat) hook)) = Some \<lparr>state = suspended, sampleRate = 16000\<rparr>
   \<and> suspended \<noteq> closed"
  by (simp add: initSession_def fails_at_def message_def setError_def Let_def
      newAudioContext_def init_def)

section \<open>Properties of the retry\<close>

text \<open>The first commit of the effect for a hook in a call.\<close>

lemma mount_call:
  "commit None call_props (unmounted, init :: (real, nat) hook)
     = Inr (\<lparr>lastDeps = Some (deps call_props (init :: (real, nat) hook)), hasCleanup = True\<rparr>,
            initSession None call_props init)"
  by (simp add: commit_def effect_def unmounted_def call_props_def truthy_def deps_def)

text \<open>
  An effect run that returned its cleanup got past the guard: the hook was active and
  had an API key.
\<close>

lemma mounted_by_commit:
  assumes "commit f0 p (fb0, s0) = Inr (fb, s1)" and "lastDeps fb0 \<noteq> Some (deps p s0)"
    and "hasCleanup fb"
  shows "isActive p \<and> apiKey p \<noteq> [] \<and> lastDeps fb = Some (deps p s0)"
  using assms
  by (auto simp: commit_def effect_def truthy_def Let_def split: sum.splits if_splits)

text \<open>
  C7. Let an instance be mounted: a commit for the properties \<open>p\<close> ran the effect and
  the effect returned its cleanup; and let \<open>s\<close> be a state of the hook since, with no
  retry in between. \<open>retry\<close> sets the error to null and \<open>isConnected\<close> to false and
  increments \<open>retryCount\<close>, a dependency of the effect, so the dependencies differ from
  those of the last run and the next commit runs the effect again. That commit is a
  restart: the teardown of the mounted instance, which ends without an error, followed
  by a fresh \<open>initSession\<close>, and it leaves an instance mounted.
\<close>

theorem retry_restarts:
  assumes "commit f0 p (fb0, s0) = Inr (fb, s1)" and "lastDeps fb0 \<noteq> Some (deps p s0)"
    and "hasCleanup fb" and "retryCount s = retryCount s0"
  shows "error (retry s) = None \<and> \<not> isConnected (retry s)
    \<and> lastDeps fb \<noteq> Some (deps p (retry s))
    \<and> (\<exists>s'. restart f p (retry s) = Inr s'
          \<and> commit f p (fb, retry s)
              = Inr (\<lparr>lastDeps = Some (deps p (retry s)), hasCleanup = True\<rparr>, s'))"
proof -
  have m: "isActive p" "apiKey p \<noteq> []" "lastDeps fb = Some (deps p s0)"
    using mounted_by_commit [OF assms(1-3)] by simp_all
  have same: "deps p s = deps p s0"
    using assms(4) by (simp add: deps_def)
  obtain s2 where s2: "cleanup (retry s) = Inr s2"
    by (simp add: cleanup_eq)
  have changed: "lastDeps fb \<noteq> Some (deps p (retry s))"
    using m(3) assms(4) by (simp add: deps_def retry_def)
  have "restart f p (retry s) = Inr (initSession f p s2)"
    using s2 by (simp add: restart_def)
  moreover have "commit f p (fb, retry s)
      = Inr (\<lparr>lastDeps = Some (deps p (retry s)), hasCleanup = True\<rparr>, initSession f p s2)"
    using changed assms(3) m(1,2) s2 by (simp add: commit_def effect_def truthy_def)
  ultimately show ?thesis
    using changed by (simp add: retry_def)
qed

theorem retry_restarts_witness:
  "error failed_call = Some ''Connection error occurred.''
   \<and> error (retry failed_call) = None
   \<and> \<not> isConnected (retry failed_call)
   \<and> (\<exists>s'. restart None call_props (retry failed_call) = Inr s'
        \<and> commit None call_props
            (\<lparr>lastDeps = Some (deps call_props (init :: (real, nat) hook)), hasCleanup = True\<rparr>,
             retry failed_call)
          = Inr (\<lparr>lastDeps = Some (deps call_props (retry failed_call)), hasCleanup = True\<rparr>,
                 s'))"
proof -
  have r: "retryCount failed_call = retryCount (init :: (real, nat) hook)"
    by (simp add: failed_call_def onerror_def setError_def initSession_def
        fails_at_def Let_def)
  have e: "error failed_call = Some ''Connection error occurred.''"
    by (simp add: failed_call_def onerror_def setError_def)
  have u: "lastDeps unmounted \<noteq> Some (deps call_props (init :: (real, nat) hook))"
    by (simp add: unmounted_def)
  show ?thesis
    using e retry_restarts [OF mount_call u _ r, of None]
    by simp
qed

section \<open>Properties of the inbound path\<close>

text \<open>
  A run of \<open>onmessage\<close> taken whole is the arrival of the message followed at once by
  the outcome of its decode.
\<close>

lemma onmessage_as_events:
  "state_of (onmessage p m now dec s)
     = (if truthy_opt (data m)
        then (case dec of
                Some d \<Rightarrow> dispatch p enc (Decoded (length (awaiting s)) d)
                            (dispatch p enc (Message m now) s)
              | None \<Rightarrow> dispatch p enc (DecodeFailed (length (awaiting s)))
                          (dispatch p enc (Message m now) s))
        else dispatch p enc (Message m now) s)"
  by (simp add: onmessage_def state_of_def drop_nth_def onmessage_begin_def
      notifySpeaking_def Let_def split: option.splits)

text \<open>
  C2, as the code has it. A run of \<open>onmessage\<close> on a message with the interruption
  flag that gets to the interruption branch (the message has no audio, or its audio is
  decoded) returns, and in the state it returns the set of active sources is empty and
  the clock is zero, whatever the set and the clock were before.
\<close>

theorem interruption_clears:
  assumes "interrupted m" and "truthy_opt (data m) \<longrightarrow> dec \<noteq> None"
  shows "\<exists>s'. onmessage p m now dec s = Inr s' \<and> sourcesRef s' = []
    \<and> nextStartTimeRef s' = 0"
  using assms
  by (auto simp: onmessage_def onmessage_end_def onmessage_interrupted_def
      notifySpeaking_def Let_def)

lemma occur_speaking:
  assumes "onSpeakingChanged p" and "completes x" and "speaking_matches s"
  shows "speaking_matches (occur p x s)"
proof (cases x)
  case (Handled m now dec)
  show ?thesis
  proof (cases "truthy_opt (data m)")
    case True
    with assms(2) Handled obtain d where "dec = Some d" by auto
    with True Handled assms(1) show ?thesis
      by (auto simp: speaking_matches_def onmessage_def state_of_def onmessage_end_def
          onmessage_interrupted_def onmessage_schedule_def onmessage_begin_def
          notifySpeaking_def set_add_def Let_def)
  next
    case False
    with Handled assms(1,3) show ?thesis
      by (simp add: speaking_matches_def onmessage_def state_of_def onmessage_end_def
          onmessage_interrupted_def notifySpeaking_def)
  qed
next
  case (SourceEnded sid)
  with assms(1,3) show ?thesis
    by (auto simp: speaking_matches_def source_ended_def notifySpeaking_def Let_def)
qed

text \<open>
  C6, as the code has it. Let the caller pass \<open>onSpeakingChanged\<close>, let every run of
  \<open>onmessage\<close> be taken whole and let every decode succeed. If the reported speaking
  flag equals "the set of active sources is not empty" before a sequence of handled
  messages and ended sources, as it does initially, it does so after the sequence, so
  after each of its steps.
\<close>

theorem speaking_tracks_sources:
  assumes "onSpeakingChanged p" and "\<forall>x \<in> set os. completes x"
    and "speaking_matches s"
  shows "speaking_matches (serial p os s)"
  using assms(2,3) unfolding serial_def
proof (induction os arbitrary: s)
  case Nil
  then show ?case by simp
next
  case (Cons x os)
  from Cons.prems have "speaking_matches (occur p x s)"
    using assms(1) by (simp add: occur_speaking)
  with Cons show ?case by simp
qed


theorem interruption_clears_witness:
  "length (sourcesRef (deliver call_props
       [(audio_msg, 0, 1), (audio_msg, 0, 1), (audio_msg, 0, 1)] (init :: (real, nat) hook))) = 3
   \<and> (\<exists>s'. onmessage call_props interrupt_msg 0 None
          (deliver call_props [(audio_msg, 0, 1), (audio_msg, 0, 1), (audio_msg, 0, 1)]
             (init :: (real, nat) hook)) = Inr s'
        \<and> sourcesRef s' = [] \<and> nextStartTimeRef s' = 0)"
proof -
  have "length (sourcesRef (deliver call_props
       [(audio_msg, 0, 1), (audio_msg, 0, 1), (audio_msg, 0, 1)] (init :: (real, nat) hook))) = 3"
    by (simp add: deliver_def serial_def onmessage_def state_of_def onmessage_end_def
        onmessage_schedule_def onmessage_begin_def notifySpeaking_def set_add_def Let_def
        audio_msg_def call_props_def init_def truthy_opt_def truthy_def)
  then show ?thesis
    using interruption_clears [of interrupt_msg None call_props 0
        "deliver call_props [(audio_msg, 0, 1), (audio_msg, 0, 1), (audio_msg, 0, 1)]
           (init :: (real, nat) hook)"]
    by (simp add: interrupt_msg_def truthy_opt_def)
qed

text \<open>
  The claim as written fails for a message that carries the flag together with an
  audio fragment whose decode rejects. The rejection is not caught, the run ends at the
  \<open>await\<close> and the interruption branch is not reached: the two sources that were
  playing are still in the set and the clock is where it was.
\<close>

theorem interruption_skipped_when_decode_rejects:
  "isl (onmessage call_props audio_interrupt_msg 0 None playing_call)
   \<and> sourcesRef (state_of (onmessage call_props audio_interrupt_msg 0 None playing_call))
       = [0, 1]
   \<and> nextStartTimeRef
        (state_of (onmessage call_props audio_interrupt_msg 0 None playing_call)) = 2
   \<and> stopped (state_of (onmessage call_props audio_interrupt_msg 0 None playing_call)) = []"
  by (simp add: onmessage_def state_of_def onmessage_begin_def notifySpeaking_def Let_def
      audio_interrupt_msg_def truthy_opt_def truthy_def playing_call_fields)

theorem speaking_tracks_sources_witness:
  "speaking_matches (serial call_props
      [Handled audio_msg 0 (Some 1), Handled audio_msg 0 (Some 1), SourceEnded 0,
       Handled interrupt_msg 1 None] (init :: (real, nat) hook))"
  using speaking_tracks_sources [of call_props
      "[Handled audio_msg 0 (Some 1), Handled audio_msg 0 (Some 1), SourceEnded 0,
        Handled interrupt_msg 1 None]" "init :: (real, nat) hook"]
  by (simp add: call_props_def speaking_matches_def init_def interrupt_msg_def
      truthy_opt_def)

text \<open>
  The claim as written fails in three ways. When the decode of the first fragment
  fails, the run of \<open>onmessage\<close> has ended with speaking reported and no source. While
  a run waits for its decode, speaking is reported and the set is still empty. And
  when an interruption arrives during that wait, the fragment is scheduled after it:
  once all runs have ended a source is active and speaking is reported false.
\<close>

theorem speaking_differs_from_sources:
  "\<not> speaking_matches (serial call_props [Handled audio_msg 0 None] (init :: (real, nat) hook))
   \<and> \<not> speaking_matches
       (run call_props id [Message audio_msg 0 :: (real, nat) event] (init :: (real, nat) hook))
   \<and> \<not> speaking_matches
       (run call_props id
          [Message audio_msg 0, Message interrupt_msg 0, Decoded 0 1 :: (real, nat) event]
          (init :: (real, nat) hook))
   \<and> awaiting (run call_props id
          [Message audio_msg 0, Message interrupt_msg 0, Decoded 0 1 :: (real, nat) event]
          (init :: (real, nat) hook)) = []"
  by (simp add: serial_def run_def onmessage_def state_of_def onmessage_end_def
      onmessage_interrupted_def onmessage_schedule_def onmessage_begin_def
      notifySpeaking_def set_add_def drop_nth_def Let_def speaking_matches_def
      audio_msg_def interrupt_msg_def call_props_def init_def truthy_opt_def truthy_def)

section \<open>Properties of the playback schedule\<close>

lemma no_overlap_Cons2:
  "no_overlap (x # y # ys) = (snd x \<le> fst y \<and> no_overlap (y # ys))"
  unfolding no_overlap_def
proof
  assume a: "\<forall>i. Suc i < length (x # y # ys) \<longrightarrow> snd ((x # y # ys) ! i) \<le> fst ((x # y # ys) ! Suc i)"
  have "snd x \<le> fst y" using a [rule_format, of 0] by simp
  moreover have "\<forall>i. Suc i < length (y # ys) \<longrightarrow> snd ((y # ys) ! i) \<le> fst ((y # ys) ! Suc i)"
  proof (intro allI impI)
    fix i assume "Suc i < length (y # ys)"
    then show "snd ((y # ys) ! i) \<le> fst ((y # ys) ! Suc i)"
      using a [rule_format, of "Suc i"] by simp
  qed
  ultimately show "snd x \<le> fst y \<and> (\<forall>i. Suc i < length (y # ys) \<longrightarrow> snd ((y # ys) ! i) \<le> fst ((y # ys) ! Suc i))"
    by blast
next
  assume b: "snd x \<le> fst y \<and> (\<forall>i. Suc i < length (y # ys) \<longrightarrow> snd ((y # ys) ! i) \<le> fst ((y # ys) ! Suc i))"
  show "\<forall>i. Suc i < length (x # y # ys) \<longrightarrow> snd ((x # y # ys) ! i) \<le> fst ((x # y # ys) ! Suc i)"
  proof (intro allI impI)
    fix i assume l: "Suc i < length (x # y # ys)"
    show "snd ((x # y # ys) ! i) \<le> fst ((x # y # ys) ! Suc i)"
    proof (cases i)
      case 0
      with b show ?thesis by simp
    next
      case (Suc j)
      with l b show ?thesis by simp
    qed
  qed
qed

lemma no_overlap_short: "no_overlap []" "no_overlap [x]"
  by (simp_all add: no_overlap_def)

lemma schedule_no_overlap: "no_overlap (schedule e fs)"
proof (induction fs arbitrary: e)
  case Nil
  then show ?case by (simp add: no_overlap_short)
next
  case (Cons f fs)
  obtain now d where f: "f = (now, d)" by (cases f)
  show ?case
  proof (cases fs)
    case Nil
    with f show ?thesis by (simp add: no_overlap_short)
  next
    case (Cons g gs)
    obtain now' d' where g: "g = (now', d')" by (cases g)
    have "no_overlap (schedule (max e now + d) fs)" by (rule Cons.IH)
    with f g Cons show ?thesis
      by (simp add: no_overlap_Cons2)
  qed
qed

lemma occur_fragment:
  assumes "is_fragment (m, now, d)"
  shows "started (occur p (Handled m now (Some d)) s)
      = started s @ [(nextId s, max (nextStartTimeRef s) now, d)]
    \<and> nextStartTimeRef (occur p (Handled m now (Some d)) s) = max (nextStartTimeRef s) now + d"
  using assms
  by (simp add: is_fragment_def onmessage_def state_of_def onmessage_end_def
      onmessage_schedule_def onmessage_begin_def notifySpeaking_def Let_def)

lemma deliver_Cons:
  "deliver p ((m, now, d) # fs) s = deliver p fs (occur p (Handled m now (Some d)) s)"
  by (simp add: deliver_def serial_def)

lemma deliver_intervals:
  "\<forall>x \<in> set fs. is_fragment x \<Longrightarrow>
   intervals (deliver p fs s) = intervals s @ schedule (nextStartTimeRef s) (map snd fs)"
proof (induction fs arbitrary: s)
  case Nil
  then show ?case by (simp add: deliver_def serial_def)
next
  case (Cons f fs)
  obtain m now d where f: "f = (m, now, d)" by (cases f)
  from Cons.prems f have frag: "is_fragment (m, now, d)" by simp
  let ?s = "occur p (Handled m now (Some d)) s"
  from Cons.prems have "intervals (deliver p fs ?s)
      = intervals ?s @ schedule (nextStartTimeRef ?s) (map snd fs)"
    by (intro Cons.IH) simp
  moreover have "intervals ?s = intervals s @ [(max (nextStartTimeRef s) now, max (nextStartTimeRef s) now + d)]"
    using occur_fragment [OF frag, of p s] by (simp add: intervals_def)
  moreover have "nextStartTimeRef ?s = max (nextStartTimeRef s) now + d"
    using occur_fragment [OF frag, of p s] by simp
  ultimately show ?case
    by (simp add: f deliver_Cons)
qed

text \<open>
  C1, as the code has it. Let a sequence of audio fragments be handled one after the
  other, each run of \<open>onmessage\<close> taken whole with its decode succeeding, none carrying
  the interruption flag, from any state. The sources started for them have exactly the
  starts and ends of \<open>schedule\<close>: each starts at the maximum of the scheduled end so far
  and the clock's now at its arrival, and the scheduled end becomes that start plus its
  duration. So for every \<open>i\<close> the fragment \<open>i + 1\<close> starts at or after the end of
  fragment \<open>i\<close>. Nothing is assumed of \<open>+\<close>, so rounding does not matter.
\<close>

theorem fragments_scheduled_back_to_back:
  assumes "\<forall>x \<in> set fs. is_fragment x"
  shows "intervals (deliver p fs s) = intervals s @ schedule (nextStartTimeRef s) (map snd fs)
    \<and> (\<forall>i. Suc i < length fs \<longrightarrow>
          snd (intervals (deliver p fs s) ! (length (intervals s) + i))
            \<le> fst (intervals (deliver p fs s) ! (length (intervals s) + Suc i)))"
proof -
  let ?new = "schedule (nextStartTimeRef s) (map snd fs)"
  have len: "length (schedule e xs) = length xs" for e :: 'a and xs
    by (induction xs arbitrary: e) auto
  have eq: "intervals (deliver p fs s) = intervals s @ ?new"
    using assms by (rule deliver_intervals)
  have "no_overlap ?new" by (rule schedule_no_overlap)
  then have "\<forall>i. Suc i < length fs \<longrightarrow> snd (?new ! i) \<le> fst (?new ! Suc i)"
    by (simp add: no_overlap_def len)
  then have "\<forall>i. Suc i < length fs \<longrightarrow>
          snd (intervals (deliver p fs s) ! (length (intervals s) + i))
            \<le> fst (intervals (deliver p fs s) ! (length (intervals s) + Suc i))"
    unfolding eq by (simp only: nth_append_length_plus)
  with eq show ?thesis by blast
qed

theorem fragments_scheduled_back_to_back_witness:
  "intervals (deliver call_props [(audio_msg, 0, 1), (audio_msg, 1 / 2, 1), (audio_msg, 5, 2)]
      (init :: (real, nat) hook)) = [(0, 1), (1, 2), (5, 7)]
   \<and> snd (intervals (deliver call_props
        [(audio_msg, 0, 1), (audio_msg, 1 / 2, 1), (audio_msg, 5, 2)]
        (init :: (real, nat) hook)) ! 0)
     \<le> fst (intervals (deliver call_props
        [(audio_msg, 0, 1), (audio_msg, 1 / 2, 1), (audio_msg, 5, 2)]
        (init :: (real, nat) hook)) ! 1)"
proof -
  have frag: "\<forall>x \<in> set [(audio_msg, 0 :: real, 1 :: real), (audio_msg, 1 / 2, 1), (audio_msg, 5, 2)].
      is_fragment x"
    by (simp add: is_fragment_def audio_msg_def truthy_opt_def truthy_def)
  have start: "intervals (init :: (real, nat) hook) = []"
    "nextStartTimeRef (init :: (real, nat) hook) = 0"
    by (simp_all add: intervals_def init_def)
  show ?thesis
    using fragments_scheduled_back_to_back [OF frag, of call_props "init :: (real, nat) hook"]
    by (simp add: start)
qed

text \<open>
  The claim as written fails when two runs overlap at the decode and the second
  fragment is decoded first. The first fragment, of duration 1, and the second, of
  duration 5, arrive at time 0. The second is scheduled first, from 0 to 5, and the
  first after it, from 5 to 6: the second fragment starts before the first one ends,
  and neither interval is the one the recurrence gives.
\<close>

theorem overlapping_decodes_reorder:
  "started (run call_props id
      [Message audio_msg 0, Message audio_msg 0, Decoded 1 5, Decoded 0 1 :: (real, nat) event]
      (init :: (real, nat) hook)) = [(0, 0, 5), (1, 5, 1)]
   \<and> intervals (run call_props id
      [Message audio_msg 0, Message audio_msg 0, Decoded 1 5, Decoded 0 1 :: (real, nat) event]
      (init :: (real, nat) hook)) = [(0, 5), (5, 6)]
   \<and> schedule (0 :: real) [(0, 1), (0, 5)] = [(0, 1), (1, 6)]
   \<and> \<not> snd (intervals (run call_props id
      [Message audio_msg 0, Message audio_msg 0, Decoded 1 5, Decoded 0 1 :: (real, nat) event]
      (init :: (real, nat) hook)) ! 1)
     \<le> fst (intervals (run call_props id
      [Message audio_msg 0, Message audio_msg 0, Decoded 1 5, Decoded 0 1 :: (real, nat) event]
      (init :: (real, nat) hook)) ! 0)"
  by (simp add: run_def intervals_def onmessage_end_def onmessage_schedule_def
      onmessage_begin_def notifySpeaking_def set_add_def drop_nth_def connect_def
      audio_msg_def call_props_def init_def truthy_opt_def truthy_def)

text \<open>
  What stays true when runs overlap is the order of scheduling. In any sequence of
  events without an interruption, decodes finishing in any order, the intervals
  scheduled from the initial state, in the order they were scheduled, do not overlap.
\<close>

lemma no_overlap_successively:
  "no_overlap xs = successively (\<lambda>a b. snd a \<le> fst b) xs"
  by (simp add: no_overlap_def successively_conv_nth)

lemma no_overlap_snoc:
  "no_overlap (xs @ [y]) = (no_overlap xs \<and> (xs \<noteq> [] \<longrightarrow> snd (last xs) \<le> fst y))"
  by (auto simp: no_overlap_successively successively_append_iff)

lemma set_drop_nth: "set (drop_nth k xs) \<subseteq> set xs"
  unfolding drop_nth_def using set_take_subset [of k xs] set_drop_subset [of "Suc k" xs]
  by auto

lemma schedule_chained:
  "chained s \<Longrightarrow> chained (onmessage_schedule d s)"
  by (simp add: chained_def onmessage_schedule_def intervals_def no_overlap_snoc)

lemma chained_cong:
  "started s' = started s \<Longrightarrow> nextStartTimeRef s \<le> nextStartTimeRef s' \<Longrightarrow>
   chained s \<Longrightarrow> chained s'"
  by (auto simp: chained_def intervals_def)

lemma dispatch_frame:
  assumes "uninterrupted e" and "\<forall>k d. e \<noteq> Decoded k d"
  shows "started (dispatch p enc e s) = started s
    \<and> nextStartTimeRef s \<le> nextStartTimeRef (dispatch p enc e s)
    \<and> set (awaiting (dispatch p enc e s)) \<subseteq> set (awaiting s) \<union> {False}"
proof (cases e)
  case (Message m now)
  with assms(1) show ?thesis
    by (auto simp: uninterrupted_def onmessage_begin_def onmessage_end_def
        notifySpeaking_def)
next
  case (DecodeFailed k)
  then show ?thesis
    using set_drop_nth [of k "awaiting s"] by auto
next
  case (Ended sid)
  then show ?thesis
    by (auto simp: source_ended_def notifySpeaking_def Let_def)
next
  case (Decoded k d)
  with assms(2) show ?thesis by simp
qed (auto simp: onopen_def onaudioprocess_handler_def session_fulfilled_def
      session_rejected_def onclose_def onerror_def setError_def)

lemma dispatch_chained:
  assumes "chained s" and "\<forall>b \<in> set (awaiting s). \<not> b" and "uninterrupted e"
  shows "chained (dispatch p enc e s) \<and> (\<forall>b \<in> set (awaiting (dispatch p enc e s)). \<not> b)"
proof (cases "\<exists>k d. e = Decoded k d")
  case True
  then obtain k d where e: "e = Decoded k d" by blast
  show ?thesis
  proof (cases "k < length (awaiting s)")
    case True
    then have "awaiting s ! k \<in> set (awaiting s)" by (rule nth_mem)
    then have flag: "\<not> awaiting s ! k" using assms(2) by blast
    have "chained (s\<lparr>awaiting := drop_nth k (awaiting s)\<rparr>)"
      using _ _ assms(1) by (rule chained_cong) simp_all
    then have "chained (onmessage_schedule d (s\<lparr>awaiting := drop_nth k (awaiting s)\<rparr>))"
      by (rule schedule_chained)
    moreover have "\<forall>b \<in> set (drop_nth k (awaiting s)). \<not> b"
      using assms(2) set_drop_nth [of k "awaiting s"] by blast
    ultimately show ?thesis
      using True flag e
      by (simp add: onmessage_end_def onmessage_schedule_def)
  next
    case False
    with assms e show ?thesis by simp
  qed
next
  case False
  then have "\<forall>k d. e \<noteq> Decoded k d" by blast
  with assms(3) have fr: "started (dispatch p enc e s) = started s"
    "nextStartTimeRef s \<le> nextStartTimeRef (dispatch p enc e s)"
    "set (awaiting (dispatch p enc e s)) \<subseteq> set (awaiting s) \<union> {False}"
    using dispatch_frame [of e p enc s] by simp_all
  have "chained (dispatch p enc e s)"
    using fr(1,2) assms(1) by (rule chained_cong)
  moreover have "\<forall>b \<in> set (awaiting (dispatch p enc e s)). \<not> b"
    using fr(3) assms(2) by blast
  ultimately show ?thesis by blast
qed

lemma run_chained:
  assumes "chained s" and "\<forall>b \<in> set (awaiting s). \<not> b" and "\<forall>e \<in> set evs. uninterrupted e"
  shows "chained (run p enc evs s)"
  using assms
proof (induction evs arbitrary: s)
  case Nil
  then show ?case by (simp add: run_def)
next
  case (Cons e evs)
  from Cons.prems have e: "uninterrupted e" and rest: "\<forall>x \<in> set evs. uninterrupted x"
    by simp_all
  have "chained (dispatch p enc e s)
      \<and> (\<forall>b \<in> set (awaiting (dispatch p enc e s)). \<not> b)"
    using Cons.prems(1,2) e by (rule dispatch_chained)
  then have "chained (run p enc evs (dispatch p enc e s))"
    using rest by (blast intro: Cons.IH)
  then show ?case by (simp add: run_def)
qed

lemma interleaved_no_overlap:
  assumes "\<forall>e \<in> set evs. uninterrupted e"
  shows "no_overlap (intervals (run p enc evs (init :: ('t::{linorder,plus,zero}, 'b) hook)))"
proof -
  have "chained (init :: ('t, 'b) hook)"
    by (simp add: chained_def intervals_def init_def no_overlap_short)
  moreover have "\<forall>b \<in> set (awaiting (init :: ('t, 'b) hook)). \<not> b"
    by (simp add: init_def)
  ultimately have "chained (run p enc evs (init :: ('t, 'b) hook))"
    using assms by (rule run_chained)
  then show ?thesis by (simp add: chained_def)
qed

section \<open>Properties of the outbound path\<close>

lemmas callback_defs =
  onopen_def onaudioprocess_handler_def session_fulfilled_def session_rejected_def
  onmessage_begin_def onmessage_end_def onmessage_interrupted_def onmessage_schedule_def
  source_ended_def onclose_def onerror_def setError_def notifySpeaking_def

lemma dispatch_outbound_ok:
  "outbound_ok s \<Longrightarrow> outbound_ok (dispatch p enc e s)"
  by (cases e) (auto simp: outbound_ok_def callback_defs Let_def)

lemma dispatch_sent_queue:
  "outbound_ok s \<Longrightarrow>
   sent (dispatch p enc e s) @ thenQueue (dispatch p enc e s)
     = sent s @ thenQueue s @ map enc (captured p enc [e] s)"
  by (cases e) (auto simp: outbound_ok_def callback_defs Let_def)

lemma run_Cons: "run p enc (e # evs) s = run p enc evs (dispatch p enc e s)"
  by (simp add: run_def)

lemma captured_Cons:
  "captured p enc (e # es) s = captured p enc [e] s @ captured p enc es (dispatch p enc e s)"
  by simp

lemma run_outbound:
  "outbound_ok s \<Longrightarrow>
   outbound_ok (run p enc evs s)
   \<and> sent (run p enc evs s) @ thenQueue (run p enc evs s)
       = sent s @ thenQueue s @ map enc (captured p enc evs s)"
proof (induction evs arbitrary: s)
  case Nil
  then show ?case by (simp add: run_def)
next
  case (Cons e evs)
  let ?s = "dispatch p enc e s"
  have ok: "outbound_ok ?s" using Cons.prems by (rule dispatch_outbound_ok)
  have one: "sent ?s @ thenQueue ?s = sent s @ thenQueue s @ map enc (captured p enc [e] s)"
    using Cons.prems by (rule dispatch_sent_queue)
  from Cons.IH [OF ok] have ih: "outbound_ok (run p enc evs ?s)"
    "sent (run p enc evs ?s) @ thenQueue (run p enc evs ?s)
       = (sent ?s @ thenQueue ?s) @ map enc (captured p enc evs ?s)"
    by simp_all
  show ?case
    unfolding run_Cons captured_Cons [of p enc e evs s]
    using ih one by (simp only: map_append append_assoc)
qed

lemma dispatch_not_capturing:
  "\<not> capturing s \<Longrightarrow> e \<noteq> Open \<Longrightarrow> \<not> capturing (dispatch p enc e s)"
  by (cases e) (auto simp: capturing_def callback_defs Let_def split: option.splits)

lemma captured_before_open:
  "\<not> capturing s \<Longrightarrow> Open \<notin> set evs \<Longrightarrow> captured p enc evs s = []"
proof (induction evs arbitrary: s)
  case Nil
  then show ?case by simp
next
  case (Cons e evs)
  from Cons.prems have "e \<noteq> Open" by auto
  with Cons.prems have "\<not> capturing (dispatch p enc e s)"
    by (simp add: dispatch_not_capturing)
  with Cons show ?case by (cases e) simp_all
qed

lemma dispatch_promise:
  "sessionPromiseRef (dispatch p enc e s)
     = (if sessionPromiseRef s = Some Pending \<and> e = SessionFulfilled then Some Fulfilled
        else if sessionPromiseRef s = Some Pending \<and> e = SessionRejected then Some Rejected
        else sessionPromiseRef s)"
  by (cases e) (auto simp: callback_defs Let_def)

lemma run_promise_fulfilled:
  "sessionPromiseRef s = Some Pending \<or> sessionPromiseRef s = Some Fulfilled \<Longrightarrow>
   SessionRejected \<notin> set evs \<Longrightarrow>
   (sessionPromiseRef (run p enc evs s) = Some Pending
      \<or> sessionPromiseRef (run p enc evs s) = Some Fulfilled)
   \<and> (SessionFulfilled \<in> set evs \<or> sessionPromiseRef s = Some Fulfilled
        \<longrightarrow> sessionPromiseRef (run p enc evs s) = Some Fulfilled)"
proof (induction evs arbitrary: s)
  case Nil
  then show ?case by (simp add: run_def)
next
  case (Cons e evs)
  let ?s = "dispatch p enc e s"
  from Cons.prems have a: "sessionPromiseRef ?s = Some Pending \<or> sessionPromiseRef ?s = Some Fulfilled"
    by (auto simp: dispatch_promise)
  from Cons.prems have b: "SessionRejected \<notin> set evs" by simp
  from Cons.prems have c: "e = SessionFulfilled \<or> sessionPromiseRef s = Some Fulfilled
      \<Longrightarrow> sessionPromiseRef ?s = Some Fulfilled"
    by (auto simp: dispatch_promise)
  from Cons.IH [OF a b] c show ?case
    unfolding run_Cons by auto
qed

lemma initSession_ready:
  "outbound_ok (initSession None p s) \<and> \<not> capturing (initSession None p s)
   \<and> sent (initSession None p s) = [] \<and> thenQueue (initSession None p s) = []
   \<and> sessionPromiseRef (initSession None p s) = Some Pending"
  by (simp add: initSession_def fails_at_def Let_def outbound_ok_def capturing_def)

text \<open>
  C3. Take any sequence of events of a lifecycle whose setup succeeded. The blobs sent
  followed by the blobs waiting for the session promise are the encoded captured
  buffers, in capture order. Nothing is sent while the promise is not fulfilled, and
  without \<open>onopen\<close> nothing is even captured. Once the promise is fulfilled, as it is
  after a \<open>SessionFulfilled\<close> with no rejection, nothing waits: every captured buffer,
  those captured before the fulfilment included, has been sent, in capture order.
\<close>

theorem capture_forwarded_in_order:
  "sent (run p enc evs (initSession None p s)) @ thenQueue (run p enc evs (initSession None p s))
     = map enc (captured p enc evs (initSession None p s))
   \<and> (sessionPromiseRef (run p enc evs (initSession None p s)) \<noteq> Some Fulfilled
        \<longrightarrow> sent (run p enc evs (initSession None p s)) = [])
   \<and> (Open \<notin> set evs
        \<longrightarrow> captured p enc evs (initSession None p s) = []
          \<and> sent (run p enc evs (initSession None p s)) = [])
   \<and> (sessionPromiseRef (run p enc evs (initSession None p s)) = Some Fulfilled
        \<longrightarrow> sent (run p enc evs (initSession None p s))
            = map enc (captured p enc evs (initSession None p s)))
   \<and> (SessionFulfilled \<in> set evs \<and> SessionRejected \<notin> set evs
        \<longrightarrow> sessionPromiseRef (run p enc evs (initSession None p s)) = Some Fulfilled)"
proof -
  let ?s0 = "initSession None p s"
  let ?s1 = "run p enc evs ?s0"
  have ready: "outbound_ok ?s0" "\<not> capturing ?s0" "sent ?s0 = []" "thenQueue ?s0 = []"
    "sessionPromiseRef ?s0 = Some Pending"
    using initSession_ready [of p s] by simp_all
  have ok: "outbound_ok ?s1"
    and all: "sent ?s1 @ thenQueue ?s1 = map enc (captured p enc evs ?s0)"
    using run_outbound [OF ready(1), of p enc evs] ready(3,4) by simp_all
  have pending: "sent ?s1 = []" if "sessionPromiseRef ?s1 \<noteq> Some Fulfilled"
    using ok that by (simp add: outbound_ok_def)
  have opened: "captured p enc evs ?s0 = [] \<and> sent ?s1 = []" if "Open \<notin> set evs"
    using captured_before_open [OF ready(2) that, of p enc] all by simp
  have delivered: "sent ?s1 = map enc (captured p enc evs ?s0)"
    if "sessionPromiseRef ?s1 = Some Fulfilled"
    using ok that all by (simp add: outbound_ok_def)
  have ful: "sessionPromiseRef ?s1 = Some Fulfilled"
    if "SessionFulfilled \<in> set evs \<and> SessionRejected \<notin> set evs"
    using run_promise_fulfilled [of ?s0 evs p enc] ready(5) that by simp
  from all pending opened delivered ful show ?thesis by blast
qed

theorem capture_forwarded_in_order_witness:
  "captured call_props Suc
      [AudioProcess 1, Open, AudioProcess 2, AudioProcess 3, SessionFulfilled, AudioProcess 4]
      (initSession None call_props (init :: (real, nat) hook)) = [2, 3, 4]
   \<and> sent (run call_props Suc
      [AudioProcess 1, Open, AudioProcess 2, AudioProcess 3, SessionFulfilled, AudioProcess 4]
      (initSession None call_props (init :: (real, nat) hook))) = [3, 4, 5]
   \<and> sent (run call_props Suc [AudioProcess 1, Open, AudioProcess 2, AudioProcess 3]
      (initSession None call_props (init :: (real, nat) hook))) = []"
proof -
  have cap: "captured call_props Suc
      [AudioProcess 1, Open, AudioProcess 2, AudioProcess 3, SessionFulfilled, AudioProcess 4]
      (initSession None call_props (init :: (real, nat) hook)) = [2, 3, 4]"
    by (simp add: initSession_def fails_at_def Let_def init_def capturing_def connect_def
        onopen_def onaudioprocess_handler_def session_fulfilled_def)
  have pend: "sessionPromiseRef (run call_props Suc
      [AudioProcess 1, Open, AudioProcess 2, AudioProcess 3]
      (initSession None call_props (init :: (real, nat) hook))) \<noteq> Some Fulfilled"
    by (simp add: run_def initSession_def fails_at_def Let_def init_def capturing_def
        connect_def onopen_def onaudioprocess_handler_def session_fulfilled_def)
  show ?thesis
    using cap pend
      capture_forwarded_in_order [of call_props Suc
        "[AudioProcess 1, Open, AudioProcess 2, AudioProcess 3, SessionFulfilled, AudioProcess 4]"
        "init :: (real, nat) hook"]
      capture_forwarded_in_order [of call_props Suc
        "[AudioProcess 1, Open, AudioProcess 2, AudioProcess 3]" "init :: (real, nat) hook"]
    by simp
qed

end
